theory Spec2Isabelle
  imports Complex_Main "HOL-Library.Word"
begin

unbundle bit_operations_syntax

section \<open>JavaScript numbers\<close>

text \<open>
  Every \<open>number\<close> of the TypeScript sources is an IEEE-754 binary64 value. A finite
  double is modelled by the real it denotes, and each arithmetic result is rounded to
  the nearest double, ties to the even significand, as the hardware does. The rounding
  \<open>fl\<close> below is the binary64 rounding for results in the normal range; overflow
  to \<open>Infinity\<close>, gradual underflow and \<open>NaN\<close> are not modelled. Comparisons,
  \<open>Math.min\<close>, \<open>Math.max\<close> and \<open>Math.floor\<close> are exact on doubles and are the
  operations of the reals.

  \<open>rne y\<close> is the integer nearest to \<open>y\<close>, a tie going to the even neighbour.
  \<open>expo x\<close> is the binary exponent of a positive \<open>x\<close>, the \<open>e\<close> with
  \<open>2 ^ e \<le> x < 2 ^ (e + 1)\<close>. \<open>fl x\<close> keeps 53 significant bits of \<open>x\<close>.
\<close>

definition rne :: "real \<Rightarrow> int" where
  "rne y = (let f = \<lfloor>y\<rfloor>; r = y - of_int f in
     if r < 1 / 2 then f else if 1 / 2 < r then f + 1 else if even f then f else f + 1)"

function expo :: "real \<Rightarrow> int" where
  "expo x = (if x \<le> 0 then 0
             else if 2 \<le> x then expo (x / 2) + 1
             else if x < 1 then expo (x * 2) - 1
             else 0)"
  by pat_completeness auto
termination
proof (relation "measure (\<lambda>x. if 1 \<le> x then nat \<lfloor>x\<rfloor> else nat \<lfloor>1 / x\<rfloor> + 1)")
  have halve: "\<lfloor>y / 2\<rfloor> < \<lfloor>y\<rfloor>" if "1 \<le> y" for y :: real
  proof (cases "2 \<le> y")
    case True
    have "of_int \<lfloor>y / 2\<rfloor> \<le> y / 2" by (rule of_int_floor_le)
    then have "of_int (\<lfloor>y / 2\<rfloor> + 1) \<le> y" using True by simp
    then have "\<lfloor>y / 2\<rfloor> + 1 \<le> \<lfloor>y\<rfloor>" by (simp only: le_floor_iff)
    then show ?thesis by simp
  next
    case False
    then have "\<lfloor>y / 2\<rfloor> = 0" using that by (simp add: floor_eq_iff)
    moreover have "1 \<le> \<lfloor>y\<rfloor>" using that by (simp add: le_floor_iff)
    ultimately show ?thesis by simp
  qed
  show "wf (measure (\<lambda>x::real. if 1 \<le> x then nat \<lfloor>x\<rfloor> else nat \<lfloor>1 / x\<rfloor> + 1))"
    by simp
  show "(x / 2, x) \<in> measure (\<lambda>x. if 1 \<le> x then nat \<lfloor>x\<rfloor> else nat \<lfloor>1 / x\<rfloor> + 1)"
    if "\<not> x \<le> 0" "2 \<le> x" for x :: real
  proof -
    have "\<lfloor>x / 2\<rfloor> < \<lfloor>x\<rfloor>" "1 \<le> \<lfloor>x\<rfloor>"
      using that halve [of x] by (simp_all add: le_floor_iff)
    then show ?thesis using that by simp
  qed
  show "(x * 2, x) \<in> measure (\<lambda>x. if 1 \<le> x then nat \<lfloor>x\<rfloor> else nat \<lfloor>1 / x\<rfloor> + 1)"
    if a: "\<not> x \<le> 0" "\<not> 2 \<le> x" "x < 1" for x :: real
  proof -
    have y: "1 \<le> 1 / x" using a by simp
    have l: "1 \<le> \<lfloor>1 / x\<rfloor>" using y by (simp add: le_floor_iff)
    have m2: "(if 1 \<le> x then nat \<lfloor>x\<rfloor> else nat \<lfloor>1 / x\<rfloor> + 1) = nat \<lfloor>1 / x\<rfloor> + 1"
      using a(3) by simp
    have "(if 1 \<le> x * 2 then nat \<lfloor>x * 2\<rfloor> else nat \<lfloor>1 / (x * 2)\<rfloor> + 1)
            < nat \<lfloor>1 / x\<rfloor> + 1"
    proof (cases "1 \<le> x * 2")
      case True
      have "\<lfloor>x * 2\<rfloor> = 1" using True a by (simp add: floor_eq_iff)
      then have "nat \<lfloor>x * 2\<rfloor> = 1" by simp
      moreover have "1 \<le> nat \<lfloor>1 / x\<rfloor>" using l by linarith
      ultimately show ?thesis using True by (simp only: if_True)
    next
      case False
      have "\<lfloor>1 / x / 2\<rfloor> < \<lfloor>1 / x\<rfloor>" using halve [OF y] .
      moreover have "1 / (x * 2) = 1 / x / 2" by simp
      ultimately have "\<lfloor>1 / (x * 2)\<rfloor> < \<lfloor>1 / x\<rfloor>" by (simp only:)
      then have "nat \<lfloor>1 / (x * 2)\<rfloor> < nat \<lfloor>1 / x\<rfloor>" using l by linarith
      then show ?thesis using False by (simp only: if_False)
    qed
    then show ?thesis by (simp only: in_measure m2)
  qed
qed

declare expo.simps [simp del]

definition fl :: "real \<Rightarrow> real" where
  "fl x = (if x = 0 then 0
           else let e = expo \<bar>x\<bar> - 52 in of_int (rne (x / 2 powi e)) * 2 powi e)"

text \<open>Decimal literals, \<open>+\<close> and \<open>*\<close> of the source: the exact result, rounded once.\<close>

definition js_lit :: "real \<Rightarrow> real" where
  "js_lit x = fl x"

definition js_add :: "real \<Rightarrow> real \<Rightarrow> real" where
  "js_add a b = fl (a + b)"

definition js_mul :: "real \<Rightarrow> real \<Rightarrow> real" where
  "js_mul a b = fl (a * b)"

text \<open>A real is a JavaScript number when rounding leaves it unchanged.\<close>

definition is_double :: "real \<Rightarrow> bool" where
  "is_double x \<longleftrightarrow> fl x = x"

text \<open>
  \<open>arr[i]\<close> for an integral number \<open>i\<close>: the element, or \<open>undefined\<close> (here
  \<open>None\<close>) when \<open>i\<close> is not an index of the array. No exception is raised.
\<close>

definition js_index :: "'a list \<Rightarrow> int \<Rightarrow> 'a option" where
  "js_index arr i = (if 0 \<le> i \<and> i < int (length arr) then Some (arr ! nat i) else None)"

text \<open>
  The error taxonomy of the specification. \<open>Rng\<close>, the two controllers and the reel
  engine contain no \<open>throw\<close>: no operation below ever produces \<open>Inl\<close>.
\<close>

datatype error = InvalidArgument | ContractViolation


section \<open>Rng (Mulberry32)\<close>

text \<open>
  \<open>state\<close> holds the number stored in \<open>this.state\<close>: the seed as given until the
  first draw, a signed 32-bit value afterwards. Seeds are integral numbers. The
  constructor's default seed \<open>Math.floor(Math.random() * 0xffffffff)\<close> is some
  integer chosen by the environment, so construction takes the seed as argument.

  \<open>x | 0\<close> is \<open>toInt32\<close>, reduction modulo \<open>2 ^ 32\<close>; on 32-bit words \<open>+\<close> and
  \<open>Math.imul\<close> wrap, \<open>>>>\<close> is the logical shift \<open>drop_bit\<close>, and \<open>x >>> 0\<close>
  reads the word as unsigned (\<open>unat\<close>). The sum \<open>t + Math.imul(...)\<close> is exact as a
  double (both operands are below \<open>2 ^ 32\<close> in magnitude) and is reduced modulo
  \<open>2 ^ 32\<close> by the following \<open>^\<close>. The final division by \<open>2 ^ 32\<close> is exact.
\<close>

record Rng =
  state :: int
  seed :: int

definition Rng_new :: "int \<Rightarrow> Rng" where
  "Rng_new s = \<lparr>state = s, seed = s\<rparr>"

definition toInt32 :: "int \<Rightarrow> 32 word" where
  "toInt32 n = word_of_int n"

definition imul :: "32 word \<Rightarrow> 32 word \<Rightarrow> 32 word" where
  "imul a b = a * b"

definition ushr :: "32 word \<Rightarrow> nat \<Rightarrow> 32 word" where
  "ushr a n = drop_bit n a"

definition Rng_next :: "Rng \<Rightarrow> real \<times> Rng" where
  "Rng_next g =
     (let s0 = toInt32 (state g);
          s1 = s0 + 0x6d2b79f5;
          t1 = imul (s1 XOR ushr s1 15) (1 OR s1);
          t2 = (t1 + imul (t1 XOR ushr t1 7) (61 OR t1)) XOR t1
      in (real (unat (t2 XOR ushr t2 14)) / 4294967296, g\<lparr>state := sint s1\<rparr>))"

definition Rng_chance :: "real \<Rightarrow> Rng \<Rightarrow> bool \<times> Rng" where
  "Rng_chance p g = (let (r, g') = Rng_next g in (r < p, g'))"

definition Rng_pick :: "'a list \<Rightarrow> Rng \<Rightarrow> (error + 'a option) \<times> Rng" where
  "Rng_pick arr g =
     (let (r, g') = Rng_next g
      in (Inr (js_index arr \<lfloor>js_mul r (real (length arr))\<rfloor>), g'))"

text \<open>The first \<open>n\<close> values of \<open>next()\<close>, and the generator after \<open>k\<close> draws.\<close>

fun draws :: "nat \<Rightarrow> Rng \<Rightarrow> real list \<times> Rng" where
  "draws 0 g = ([], g)"
| "draws (Suc n) g =
     (let (r, g') = Rng_next g; (rs, g'') = draws n g' in (r # rs, g''))"

definition Rng_advance :: "nat \<Rightarrow> Rng \<Rightarrow> Rng" where
  "Rng_advance k g = ((\<lambda>h. snd (Rng_next h)) ^^ k) g"

text \<open>
  The value of draw number \<open>i\<close> (counted from 0) written as a function of the seed
  and \<open>i\<close> alone, with no generator object.
\<close>

definition mulberry32 :: "32 word \<Rightarrow> 32 word" where
  "mulberry32 s =
     (let t1 = (s XOR drop_bit 15 s) * (1 OR s);
          t2 = (t1 + (t1 XOR drop_bit 7 t1) * (61 OR t1)) XOR t1
      in t2 XOR drop_bit 14 t2)"

definition nth_draw :: "int \<Rightarrow> nat \<Rightarrow> real" where
  "nth_draw s i =
     real (unat (mulberry32 (word_of_int s + word_of_nat (Suc i) * 0x6d2b79f5))) / 4294967296"


section \<open>ProbabilityController (discrete engine)\<close>

datatype TowerId = A | B

datatype PlaneOutcome = hitA | hitB | miss

text \<open>
  Optional fields are \<open>option\<close>s (\<open>None\<close> is \<open>undefined\<close>); a
  \<open>Record<TowerId, boolean>\<close> is a function on \<open>TowerId\<close>.
\<close>

record RoundResolution =
  firstPlane :: PlaneOutcome
  secondPlaneTriggered :: bool
  secondPlane :: "PlaneOutcome option"
  collapseTriggered :: bool
  collapsedTower :: "TowerId option"
  destroyed :: "TowerId \<Rightarrow> bool"
  survives :: "TowerId \<Rightarrow> bool"
  selectedTowerWins :: bool

definition BASE_FIRST_PLANE_hitA :: real where "BASE_FIRST_PLANE_hitA = js_lit (4 / 10)"
definition BASE_FIRST_PLANE_hitB :: real where "BASE_FIRST_PLANE_hitB = js_lit (4 / 10)"
definition BASE_FIRST_PLANE_miss :: real where "BASE_FIRST_PLANE_miss = js_lit (2 / 10)"
definition BASE_DOUBLE_PLANE_ON_MISS :: real where "BASE_DOUBLE_PLANE_ON_MISS = js_lit (10 / 100)"
definition BASE_COLLAPSE :: real where "BASE_COLLAPSE = js_lit (5 / 100)"
definition TUNING_hitWeightMultiplier :: real where "TUNING_hitWeightMultiplier = js_lit (1125 / 1000)"
definition TUNING_missWeightMultiplier :: real where "TUNING_missWeightMultiplier = js_lit (5 / 10)"
definition TUNING_collapseMultiplier :: real where "TUNING_collapseMultiplier = js_lit (28 / 10)"

definition rollPlaneOutcome :: "Rng \<Rightarrow> PlaneOutcome \<times> Rng" where
  "rollPlaneOutcome g =
     (let hitAWeight = js_mul BASE_FIRST_PLANE_hitA TUNING_hitWeightMultiplier;
          hitBWeight = js_mul BASE_FIRST_PLANE_hitB TUNING_hitWeightMultiplier;
          missWeight = js_mul BASE_FIRST_PLANE_miss TUNING_missWeightMultiplier;
          total = js_add (js_add hitAWeight hitBWeight) missWeight;
          (u, g') = Rng_next g;
          r = js_mul u total
      in (if r < hitAWeight then hitA
          else if r < js_add hitAWeight hitBWeight then hitB
          else miss, g'))"

definition applyPlaneOutcome :: "(TowerId \<Rightarrow> bool) \<Rightarrow> PlaneOutcome \<Rightarrow> (TowerId \<Rightarrow> bool)" where
  "applyPlaneOutcome d outcome =
     (let d1 = (if outcome = hitA then d(A := True) else d)
      in if outcome = hitB then d1(B := True) else d1)"

definition getEffectiveCollapseChance :: real where
  "getEffectiveCollapseChance = min 1 (js_mul BASE_COLLAPSE TUNING_collapseMultiplier)"

definition randomTower :: "Rng \<Rightarrow> TowerId \<times> Rng" where
  "randomTower g = (let (c, g') = Rng_chance (js_lit (5 / 10)) g in (if c then A else B, g'))"

text \<open>
  \<open>resolveRound\<close>, statement by statement. \<open>&&\<close> draws only when the first plane
  missed; \<open>if (secondPlane)\<close> and \<open>if (collapsedTower)\<close> test for \<open>undefined\<close>.
\<close>

definition resolveRound :: "TowerId \<Rightarrow> Rng \<Rightarrow> RoundResolution \<times> Rng" where
  "resolveRound selectedTower g0 =
     (let (collapseTriggered', g1) = Rng_chance getEffectiveCollapseChance g0;
          (collapsedTower', g2) =
             (if collapseTriggered' then (let (t, h) = randomTower g1 in (Some t, h))
              else (None, g1));
          (firstPlane', g3) = rollPlaneOutcome g2;
          (secondPlaneTriggered', g4) =
             (if firstPlane' = miss then Rng_chance BASE_DOUBLE_PLANE_ON_MISS g3
              else (False, g3));
          (secondPlane', g5) =
             (if secondPlaneTriggered' then (let (p, h) = rollPlaneOutcome g4 in (Some p, h))
              else (None, g4));
          d0 = (\<lambda>t. False);
          d1 = applyPlaneOutcome d0 firstPlane';
          d2 = (case secondPlane' of Some p \<Rightarrow> applyPlaneOutcome d1 p | None \<Rightarrow> d1);
          d3 = (case collapsedTower' of Some t \<Rightarrow> d2(t := True) | None \<Rightarrow> d2);
          survives' = (\<lambda>t. \<not> d3 t)
      in (\<lparr>firstPlane = firstPlane',
           secondPlaneTriggered = secondPlaneTriggered',
           secondPlane = secondPlane',
           collapseTriggered = collapseTriggered',
           collapsedTower = collapsedTower',
           destroyed = d3,
           survives = survives',
           selectedTowerWins = survives' selectedTower\<rparr>, g5))"

text \<open>
  The specification's derivation of \<open>destroyed\<close>, in its own words: a side is
  destroyed if the first event names it, the second event (if any) names it, or the
  rare event targets it.
\<close>

definition names :: "PlaneOutcome \<Rightarrow> TowerId \<Rightarrow> bool" where
  "names outcome side \<longleftrightarrow> (outcome = hitA \<and> side = A) \<or> (outcome = hitB \<and> side = B)"

definition destroyed_spec ::
    "PlaneOutcome \<Rightarrow> PlaneOutcome option \<Rightarrow> TowerId option \<Rightarrow> TowerId \<Rightarrow> bool" where
  "destroyed_spec first second rare side \<longleftrightarrow>
     names first side \<or> (\<exists>p. second = Some p \<and> names p side) \<or> rare = Some side"

text \<open>The number of \<open>next()\<close> calls a round makes, read off its result.\<close>

definition draws_used :: "RoundResolution \<Rightarrow> nat" where
  "draws_used res =
     1 + (if collapseTriggered res then 1 else 0)
       + 1 + (if firstPlane res = miss then 1 else 0)
       + (if secondPlaneTriggered res then 1 else 0)"


section \<open>Cards\<close>

datatype CardKind =
    strawberry | butterfly | taxi | fruit
  | guru | hydration | catceo | ramen | crypto
  | mindfulness | cleaning | pizza | dog | drama
  | bomb

text \<open>
  \<open>CardData\<close> without its display texts (\<open>emoji\<close>, \<open>title\<close>, \<open>subtitle\<close>), which
  no operation reads.
\<close>

record CardData =
  kind :: CardKind
  gradient :: "string \<times> string"
  accentColor :: string
  isBomb :: bool

definition SAFE_CARDS :: "CardData list" where
  "SAFE_CARDS =
   [\<lparr>kind = strawberry, gradient = (''#ff6b6b'', ''#ee0979''), accentColor = ''#ff6b6b'', isBomb = False\<rparr>,
    \<lparr>kind = butterfly, gradient = (''#667eea'', ''#764ba2''), accentColor = ''#a78bfa'', isBomb = False\<rparr>,
    \<lparr>kind = taxi, gradient = (''#f7971e'', ''#ffd200''), accentColor = ''#fbbf24'', isBomb = False\<rparr>,
    \<lparr>kind = fruit, gradient = (''#56ab2f'', ''#a8e063''), accentColor = ''#4ade80'', isBomb = False\<rparr>,
    \<lparr>kind = guru, gradient = (''#0f2027'', ''#2c5364''), accentColor = ''#38bdf8'', isBomb = False\<rparr>,
    \<lparr>kind = hydration, gradient = (''#00c6ff'', ''#0072ff''), accentColor = ''#7dd3fc'', isBomb = False\<rparr>,
    \<lparr>kind = catceo, gradient = (''#1a1a2e'', ''#16213e''), accentColor = ''#e2e8f0'', isBomb = False\<rparr>,
    \<lparr>kind = ramen, gradient = (''#e96c2e'', ''#c0392b''), accentColor = ''#fb923c'', isBomb = False\<rparr>,
    \<lparr>kind = crypto, gradient = (''#1a0533'', ''#7b2ff7''), accentColor = ''#c084fc'', isBomb = False\<rparr>,
    \<lparr>kind = mindfulness, gradient = (''#11998e'', ''#38ef7d''), accentColor = ''#6ee7b7'', isBomb = False\<rparr>,
    \<lparr>kind = cleaning, gradient = (''#4776e6'', ''#8e54e9''), accentColor = ''#c4b5fd'', isBomb = False\<rparr>,
    \<lparr>kind = pizza, gradient = (''#f7971e'', ''#e74c3c''), accentColor = ''#fca5a5'', isBomb = False\<rparr>,
    \<lparr>kind = dog, gradient = (''#f09819'', ''#edde5d''), accentColor = ''#fde68a'', isBomb = False\<rparr>,
    \<lparr>kind = drama, gradient = (''#f953c6'', ''#b91d73''), accentColor = ''#f9a8d4'', isBomb = False\<rparr>]"

definition BOMB_CARD :: CardData where
  "BOMB_CARD =
     \<lparr>kind = bomb, gradient = (''#1a0000'', ''#3d0000''), accentColor = ''#ef4444'', isBomb = True\<rparr>"

definition pickSafeCard :: "real \<Rightarrow> CardData option" where
  "pickSafeCard r = js_index SAFE_CARDS \<lfloor>js_mul r (real (length SAFE_CARDS))\<rfloor>"


section \<open>OutcomeController (hazard engine)\<close>

datatype RunType = short | medium | long

text \<open>
  The controller's own fields. Its \<open>rng\<close> field is a reference to a generator shared
  with its owner, so the operations that draw take the generator and return it
  advanced. The counters are numbers: \<open>x++\<close> is \<open>x + 1\<close> rounded. The method
  \<open>isBomb\<close> is \<open>isBomb_at\<close> here, \<open>isBomb\<close> being the field of \<open>CardData\<close>.
\<close>

record OutcomeController =
  runType :: RunType
  consecutiveLosses :: real
  consecutiveWins :: real
  roundNumber :: real

definition OutcomeController_new :: OutcomeController where
  "OutcomeController_new =
     \<lparr>runType = medium, consecutiveLosses = 0, consecutiveWins = 0, roundNumber = 0\<rparr>"

fun BASE_PROB :: "RunType \<Rightarrow> real" where
  "BASE_PROB short = js_lit (25 / 100)"
| "BASE_PROB medium = js_lit (14 / 100)"
| "BASE_PROB long = js_lit (8 / 100)"

fun GROW_RATE :: "RunType \<Rightarrow> real" where
  "GROW_RATE short = js_lit (6 / 100)"
| "GROW_RATE medium = js_lit (3 / 100)"
| "GROW_RATE long = js_lit (15 / 1000)"

definition startRound :: "OutcomeController \<Rightarrow> Rng \<Rightarrow> OutcomeController \<times> Rng" where
  "startRound c g =
     (let c1 = c\<lparr>roundNumber := js_add (roundNumber c) 1\<rparr>;
          (r, g') = Rng_next g
      in (c1\<lparr>runType := (if r < js_lit (30 / 100) then short
                          else if r < js_lit (80 / 100) then medium
                          else long)\<rparr>, g'))"

definition getBombProbability :: "OutcomeController \<Rightarrow> real \<Rightarrow> real" where
  "getBombProbability c swipeIndex =
     (let prob0 = js_add (BASE_PROB (runType c)) (js_mul (GROW_RATE (runType c)) swipeIndex);
          prob = (if 3 \<le> consecutiveLosses c then js_mul prob0 (js_lit (80 / 100))
                  else if 3 \<le> consecutiveWins c then js_mul prob0 (js_lit (110 / 100))
                  else prob0)
      in min (js_lit (30 / 100)) (max (js_lit (4 / 100)) prob))"

definition isBomb_at :: "OutcomeController \<Rightarrow> real \<Rightarrow> Rng \<Rightarrow> bool \<times> Rng" where
  "isBomb_at c swipeIndex g = Rng_chance (getBombProbability c swipeIndex) g"

definition onRoundLost :: "OutcomeController \<Rightarrow> OutcomeController" where
  "onRoundLost c = c\<lparr>consecutiveLosses := js_add (consecutiveLosses c) 1, consecutiveWins := 0\<rparr>"

definition onRoundWon :: "OutcomeController \<Rightarrow> OutcomeController" where
  "onRoundWon c = c\<lparr>consecutiveWins := js_add (consecutiveWins c) 1, consecutiveLosses := 0\<rparr>"

text \<open>
  The calls a client can make on a controller, and a sequence of them run in order on
  the controller and the generator it shares.
\<close>

datatype Call = StartRound | GetBombProbability real | IsBomb real | OnRoundWon | OnRoundLost

fun call :: "Call \<Rightarrow> OutcomeController \<times> Rng \<Rightarrow> OutcomeController \<times> Rng" where
  "call StartRound (c, g) = startRound c g"
| "call (GetBombProbability i) (c, g) = (c, g)"
| "call (IsBomb i) (c, g) = (c, snd (isBomb_at c i g))"
| "call OnRoundWon (c, g) = (onRoundWon c, g)"
| "call OnRoundLost (c, g) = (onRoundLost c, g)"

fun run :: "Call list \<Rightarrow> OutcomeController \<times> Rng \<Rightarrow> OutcomeController \<times> Rng" where
  "run [] s = s"
| "run (x # xs) s = run xs (call x s)"

fun verdict :: "Call \<Rightarrow> bool" where
  "verdict OnRoundWon = True"
| "verdict OnRoundLost = True"
| "verdict _ = False"


section \<open>ReelEngine\<close>

text \<open>
  The engine and its controller hold the same \<open>Rng\<close> object: one generator in the
  state, used by both. \<open>startRound\<close>, \<open>onRoundLost\<close> and \<open>onRoundWon\<close> of the
  engine only forward to the controller.
\<close>

record ReelEngine =
  rng :: Rng
  outcomeController :: OutcomeController

definition ReelEngine_new :: "Rng \<Rightarrow> ReelEngine" where
  "ReelEngine_new g = \<lparr>rng = g, outcomeController = OutcomeController_new\<rparr>"

definition nextCard :: "ReelEngine \<Rightarrow> real \<Rightarrow> CardData option \<times> ReelEngine" where
  "nextCard e swipeIndex =
     (let (b, g1) = isBomb_at (outcomeController e) swipeIndex (rng e)
      in if b then (Some BOMB_CARD, e\<lparr>rng := g1\<rparr>)
         else (let (r, g2) = Rng_next g1 in (pickSafeCard r, e\<lparr>rng := g2\<rparr>)))"


section \<open>Properties\<close>

subsection \<open>Facts about rounding\<close>

lemmas js_eval =
  js_lit_def js_add_def js_mul_def fl_def expo.simps rne_def Let_def power_int_minus

lemma expo_bounds: "0 < x \<Longrightarrow> 2 powi (expo x) \<le> x \<and> x < 2 powi (expo x + 1)"
proof (induction x rule: expo.induct)
  case (1 x)
  show ?case
  proof (cases "2 \<le> x")
    case True
    then have e: "expo x = expo (x / 2) + 1" using 1(3) by (simp add: expo.simps [of x])
    have "2 powi (expo (x / 2)) \<le> x / 2 \<and> x / 2 < 2 powi (expo (x / 2) + 1)"
      using 1(1) [OF _ True] 1(3) by simp
    then show ?thesis unfolding e by (simp add: power_int_add)
  next
    case False
    show ?thesis
    proof (cases "x < 1")
      case True
      then have e: "expo x = expo (x * 2) - 1" using 1(3) False by (simp add: expo.simps [of x])
      have "2 powi (expo (x * 2)) \<le> x * 2 \<and> x * 2 < 2 powi (expo (x * 2) + 1)"
        using 1(2) [OF _ False True] 1(3) by simp
      then show ?thesis unfolding e by (simp add: power_int_add power_int_diff)
    next
      case nl: False
      then have e: "expo x = 0" using 1(3) False by (simp add: expo.simps [of x])
      show ?thesis unfolding e using False nl by simp
    qed
  qed
qed

lemma rne_err: "\<bar>of_int (rne y) - y\<bar> \<le> 1 / 2"
proof -
  have "of_int \<lfloor>y\<rfloor> \<le> y" "y < of_int \<lfloor>y\<rfloor> + 1" by linarith+
  then show ?thesis by (auto simp: rne_def Let_def)
qed

lemma fl_err: "\<bar>fl x - x\<bar> \<le> \<bar>x\<bar> / 2 ^ 53"
proof (cases "x = 0")
  case True
  then show ?thesis by (simp add: fl_def)
next
  case False
  define e where "e = expo \<bar>x\<bar>"
  define s :: real where "s = 2 powi (e - 52)"
  have spos: "0 < s" by (simp add: s_def)
  have lo: "2 powi e \<le> \<bar>x\<bar>" using expo_bounds [of "\<bar>x\<bar>"] False by (simp add: e_def)
  have fx: "fl x = of_int (rne (x / s)) * s"
    using False by (simp add: fl_def Let_def e_def s_def)
  have "fl x - x = (of_int (rne (x / s)) - x / s) * s" using spos by (simp add: fx field_simps)
  then have "\<bar>fl x - x\<bar> = \<bar>of_int (rne (x / s)) - x / s\<bar> * s" using spos by (simp add: abs_mult)
  also have "\<dots> \<le> (1 / 2) * s" using rne_err [of "x / s"] spos by (intro mult_right_mono) simp_all
  also have "\<dots> = 2 powi e / 2 ^ 53" by (simp add: s_def power_int_diff)
  also have "\<dots> \<le> \<bar>x\<bar> / 2 ^ 53" using lo by (simp add: divide_right_mono)
  finally show ?thesis .
qed

lemma fl_upper: "0 \<le> x \<Longrightarrow> fl x \<le> x + x / 2 ^ 53"
proof -
  assume "0 \<le> x"
  then have "\<bar>fl x - x\<bar> \<le> x / 2 ^ 53" using fl_err [of x] by simp
  then show ?thesis by linarith
qed

lemma fl_lower: "0 \<le> x \<Longrightarrow> x - x / 2 ^ 53 \<le> fl x"
proof -
  assume "0 \<le> x"
  then have "\<bar>fl x - x\<bar> \<le> x / 2 ^ 53" using fl_err [of x] by simp
  then show ?thesis by linarith
qed

lemma fl_nonneg: "0 \<le> x \<Longrightarrow> 0 \<le> fl x"
proof -
  assume x: "0 \<le> x"
  have "x / 2 ^ 53 \<le> x" using x by (simp add: field_simps)
  then show ?thesis using fl_lower [OF x] by linarith
qed

lemma fl_nonpos: "x \<le> 0 \<Longrightarrow> fl x \<le> 0"
proof -
  assume x: "x \<le> 0"
  have "\<bar>fl x - x\<bar> \<le> - x / 2 ^ 53" using fl_err [of x] x by simp
  moreover have "- x / 2 ^ 53 \<le> - x" using x by (simp add: field_simps)
  ultimately show ?thesis by linarith
qed

lemma rne_of_int: "rne (of_int k) = k"
  by (simp add: rne_def)

text \<open>An integer of fewer than 54 bits times a power of two is a double.\<close>

lemma is_double_dyadic:
  assumes "\<bar>k\<bar> < 2 ^ 53"
  shows "is_double (of_int k * 2 powi j)"
proof (cases "k = 0")
  case True
  then show ?thesis by (simp add: is_double_def fl_def)
next
  case False
  define x :: real where "x = of_int k * 2 powi j"
  have x0: "x \<noteq> 0" using False by (simp add: x_def)
  define e where "e = expo \<bar>x\<bar>"
  have lo: "2 powi e \<le> \<bar>x\<bar>" using expo_bounds [of "\<bar>x\<bar>"] x0 by (simp add: e_def)
  have "real_of_int \<bar>k\<bar> < real_of_int (2 ^ 53)" using assms by (simp only: of_int_less_iff)
  then have "\<bar>real_of_int k\<bar> < 2 ^ 53" by simp
  then have "\<bar>x\<bar> < 2 ^ 53 * 2 powi j" by (simp add: x_def abs_mult)
  also have "\<dots> = 2 powi (53 + j)" by (simp add: power_int_add)
  finally have "(2::real) powi e < 2 powi (53 + j)" using lo by linarith
  then have "e < 53 + j"
    using power_int_increasing [of "53 + j" e "2::real"] by (cases "e < 53 + j") simp_all
  then have n: "0 \<le> j - (e - 52)" by simp
  have "x / 2 powi (e - 52) = of_int k * 2 powi (j - (e - 52))"
    by (simp add: x_def power_int_diff)
  also have "\<dots> = of_int (k * 2 ^ nat (j - (e - 52)))"
    using n by (simp add: power_int_def)
  finally have "rne (x / 2 powi (e - 52)) = k * 2 ^ nat (j - (e - 52))"
    by (simp only: rne_of_int)
  then have "fl x = of_int (k * 2 ^ nat (j - (e - 52))) * 2 powi (e - 52)"
    using x0 by (simp add: fl_def Let_def e_def)
  also have "\<dots> = of_int k * (2 powi (j - (e - 52)) * 2 powi (e - 52))"
    using n by (simp add: power_int_def)
  also have "2 powi (j - (e - 52)) * 2 powi (e - 52) = (2::real) powi j"
    using power_int_add [of "2::real" "j - (e - 52)" "e - 52"] by simp
  finally show ?thesis by (simp add: is_double_def x_def)
qed

text \<open>
  The decimal literals of the sources as exact fractions: the doubles the TypeScript
  compiler reads them as.
\<close>

lemma lit_vals:
  "js_lit (1 / 25) = 5764607523034235 / 144115188075855872"
  "js_lit (3 / 10) = 5404319552844595 / 18014398509481984"
  "js_lit (4 / 5) = 3602879701896397 / 4503599627370496"
  "js_lit (11 / 10) = 2476979795053773 / 2251799813685248"
  "js_lit (7 / 50) = 1261007895663739 / 9007199254740992"
  "js_lit (3 / 100) = 1080863910568919 / 36028797018963968"
  "js_lit (1 / 4) = 1 / 4"
  "js_lit (3 / 50) = 1080863910568919 / 18014398509481984"
  "js_lit (2 / 25) = 5764607523034235 / 72057594037927936"
  "js_lit (3 / 200) = 1080863910568919 / 72057594037927936"
  "js_lit (29 / 100) = 5224175567749775 / 18014398509481984"
  "js_lit (2 / 5) = 3602879701896397 / 9007199254740992"
  "js_lit (1 / 5) = 3602879701896397 / 18014398509481984"
  "js_lit (1 / 10) = 3602879701896397 / 36028797018963968"
  "js_lit (1 / 20) = 3602879701896397 / 72057594037927936"
  "js_lit (9 / 8) = 9 / 8"
  "js_lit (1 / 2) = 1 / 2"
  "js_lit (14 / 5) = 3152519739159347 / 1125899906842624"
  by (simp_all add: js_lit_def fl_def expo.simps rne_def Let_def power_int_minus)

subsection \<open>The hazard probability\<close>

lemma clamp_lower: "p < P \<Longrightarrow> m < raw \<Longrightarrow>
    min P (max p m) \<le> min P (max p raw) \<and>
    (min P (max p m) < min P (max p raw) \<longleftrightarrow> min P (max p m) < P \<and> p < min P (max p raw))"
  for p :: real
  by auto

lemma clamp_raise: "p < P \<Longrightarrow> raw < m \<Longrightarrow>
    min P (max p raw) \<le> min P (max p m) \<and>
    (min P (max p raw) < min P (max p m) \<longleftrightarrow> min P (max p raw) < P \<and> p < min P (max p m))"
  for p :: real
  by auto

lemma clamp_floor: "0 < p \<Longrightarrow> p < P \<Longrightarrow> x \<le> 0 \<Longrightarrow> min P (max p x) = p"
  for p :: real
  by auto

lemma raw_prob_ge:
  assumes "0 \<le> i"
  shows "7 / 100 \<le> js_add (BASE_PROB rt) (js_mul (GROW_RATE rt) i)"
proof -
  have g: "0 \<le> GROW_RATE rt" by (cases rt) (simp_all add: lit_vals)
  have b: "8 / 100 \<le> BASE_PROB rt" by (cases rt) (simp_all add: lit_vals)
  have "0 \<le> js_mul (GROW_RATE rt) i"
    unfolding js_mul_def using g assms by (intro fl_nonneg) simp
  then have x: "8 / 100 \<le> BASE_PROB rt + js_mul (GROW_RATE rt) i" (is "_ \<le> ?x") using b by linarith
  then have "?x - ?x / 2 ^ 53 \<le> fl ?x" by (intro fl_lower) linarith
  moreover have "7 / 100 \<le> ?x - ?x / 2 ^ 53" using x by (simp add: field_simps)
  ultimately show ?thesis unfolding js_add_def by linarith
qed

lemma mercy_above:
  assumes "7 / 100 \<le> r"
  shows "js_lit (4 / 100) < js_mul r (js_lit (80 / 100))"
proof -
  let ?x = "r * js_lit (80 / 100)"
  have "r * (79 / 100) \<le> ?x" using assms by (simp add: lit_vals)
  then have x5: "5 / 100 \<le> ?x" using assms by linarith
  then have "?x - ?x / 2 ^ 53 \<le> fl ?x" by (intro fl_lower) linarith
  moreover have "45 / 1000 \<le> ?x - ?x / 2 ^ 53" using x5 by (simp add: field_simps)
  moreover have "js_lit (4 / 100) < 45 / 1000" by (simp add: lit_vals)
  ultimately show ?thesis unfolding js_mul_def by linarith
qed

lemma mercy_less: 
  assumes "0 < r"
  shows "js_mul r (js_lit (80 / 100)) < r"
proof -
  let ?x = "r * js_lit (80 / 100)"
  have x: "0 \<le> ?x" "?x \<le> r * (81 / 100)" using assms by (simp_all add: lit_vals)
  have "fl ?x \<le> ?x + ?x / 2 ^ 53" using x(1) by (rule fl_upper)
  also have "\<dots> \<le> r * (81 / 100) + r * (81 / 100) / 2 ^ 53"
    using x(2) by (intro add_mono divide_right_mono) simp_all
  also have "\<dots> < r" using assms by (simp add: field_simps)
  finally show ?thesis by (simp add: js_mul_def)
qed

lemma correction_greater: 
  assumes "0 < r"
  shows "r < js_mul r (js_lit (110 / 100))"
proof -
  let ?x = "r * js_lit (110 / 100)"
  have x: "0 \<le> ?x" "r * (109 / 100) \<le> ?x" using assms by (simp_all add: lit_vals)
  have "r < r * (109 / 100) - r * (109 / 100) / 2 ^ 53" using assms by (simp add: field_simps)
  also have "\<dots> = r * (109 / 100) * (1 - 1 / 2 ^ 53)" by (simp add: field_simps)
  also have "\<dots> \<le> ?x * (1 - 1 / 2 ^ 53)" using x(2) by (intro mult_right_mono) simp_all
  also have "\<dots> = ?x - ?x / 2 ^ 53" by (simp add: field_simps)
  also have "\<dots> \<le> fl ?x" using x(1) by (rule fl_lower)
  finally show ?thesis by (simp add: js_mul_def)
qed

lemma mercy_nonpos: "r \<le> 0 \<Longrightarrow> js_mul r (js_lit (80 / 100)) \<le> 0"
  unfolding js_mul_def by (rule fl_nonpos) (simp add: lit_vals mult_le_0_iff)

lemma correction_nonpos: "r \<le> 0 \<Longrightarrow> js_mul r (js_lit (110 / 100)) \<le> 0"
  unfolding js_mul_def by (rule fl_nonpos) (simp add: lit_vals mult_le_0_iff)

lemma getBombProbability_range:
  "js_lit (4 / 100) \<le> getBombProbability c i \<and> getBombProbability c i \<le> js_lit (30 / 100)"
  by (simp add: getBombProbability_def Let_def lit_vals)

lemma one_more: "js_add 0 1 = 1" "js_add 1 1 = 2" "js_add 2 1 = 3"
  by (simp_all add: js_eval)

lemma three_losses:
  "consecutiveLosses (onRoundLost (onRoundLost (onRoundLost OutcomeController_new))) = 3"
  "consecutiveWins (onRoundLost (onRoundLost (onRoundLost OutcomeController_new))) = 0"
  "runType (onRoundLost (onRoundLost (onRoundLost OutcomeController_new))) = medium"
  by (simp_all add: onRoundLost_def OutcomeController_new_def one_more)

lemma three_wins:
  "consecutiveLosses (onRoundWon (onRoundWon (onRoundWon OutcomeController_new))) = 0"
  "consecutiveWins (onRoundWon (onRoundWon (onRoundWon OutcomeController_new))) = 3"
  "runType (onRoundWon (onRoundWon (onRoundWon OutcomeController_new))) = medium"
  by (simp_all add: onRoundWon_def OutcomeController_new_def one_more)

lemma fresh_controller:
  "consecutiveLosses OutcomeController_new = 0"
  "consecutiveWins OutcomeController_new = 0"
  "runType OutcomeController_new = medium"
  by (simp_all add: OutcomeController_new_def)

text \<open>
  C1 (clamp invariant). For every run type, every streak state and every step index
  (in particular every index in \<open>[0, 1000]\<close>), \<open>getBombProbability\<close> returns a
  value between the doubles \<open>0.04\<close> and \<open>0.30\<close>, which themselves lie inside the real
  interval \<open>[0.04, 0.30]\<close>.
\<close>

theorem getBombProbability_clamped:
  "js_lit (4 / 100) \<le> getBombProbability c i \<and> getBombProbability c i \<le> js_lit (30 / 100) \<and>
   4 / 100 \<le> getBombProbability c i \<and> getBombProbability c i \<le> 30 / 100"
proof -
  have "(4 / 100 :: real) \<le> js_lit (4 / 100)" "js_lit (30 / 100) \<le> (30 / 100 :: real)"
    by (simp_all add: lit_vals)
  then show ?thesis using getBombProbability_range [of c i] by linarith
qed

text \<open>
  C9 (medium scenario). With run type medium and no streak active, the code returns the
  double \<open>0.14\<close> at step 0 and the double \<open>0.30\<close> at step 10. At step 5 it does not
  return \<open>0.29\<close>: \<open>0.03 * 5\<close> is the double \<open>0.15\<close>, and \<open>0.14 + 0.15\<close> lies
  exactly half-way between the double \<open>0.29\<close> and the next double above it, so the
  sum rounds to the even neighbour \<open>0.29000000000000004\<close>
  (\<open>326510972984361 / 2 ^ 50\<close>), one unit in the last place above \<open>0.29\<close>.
\<close>

theorem medium_scenario_counterexample:
  "getBombProbability OutcomeController_new 5 \<noteq> js_lit (29 / 100) \<and>
   getBombProbability OutcomeController_new 5 \<noteq> 29 / 100"
  by (simp add: getBombProbability_def OutcomeController_new_def js_eval)

text \<open>
  C9 as amended: steps 0 and 10 as claimed; step 5 returns the double next above
  \<open>0.29\<close>, which is within \<open>10 ^ -16\<close> of \<open>0.29\<close>.
\<close>

theorem medium_scenario:
  assumes "runType c = medium" "consecutiveLosses c < 3" "consecutiveWins c < 3"
  shows "getBombProbability c 0 = js_lit (14 / 100) \<and>
         getBombProbability c 5 = js_lit (29 / 100) + 1 / 2 ^ 54 \<and>
         getBombProbability c 5 = 326510972984361 / 1125899906842624 \<and>
         \<bar>getBombProbability c 5 - 29 / 100\<bar> < 1 / 10 ^ 16 \<and>
         getBombProbability c 10 = js_lit (30 / 100)"
  using assms
  by (simp add: getBombProbability_def js_eval)

theorem medium_scenario_witness:
  "runType OutcomeController_new = medium \<and> consecutiveLosses OutcomeController_new < 3 \<and>
   consecutiveWins OutcomeController_new < 3 \<and>
   getBombProbability OutcomeController_new 0 = js_lit (14 / 100) \<and>
   getBombProbability OutcomeController_new 5 = 326510972984361 / 1125899906842624 \<and>
   getBombProbability OutcomeController_new 10 = js_lit (30 / 100)"
proof -
  have h: "runType OutcomeController_new = medium" "consecutiveLosses OutcomeController_new < 3"
    "consecutiveWins OutcomeController_new < 3"
    by (simp_all add: OutcomeController_new_def)
  show ?thesis using h medium_scenario [OF h] by simp
qed

text \<open>
  C5 (mercy and correction). The claim fails where the clamp hides the adjustment: run
  type medium at step 10 has the raw value \<open>0.44\<close>; after three losses the adjusted
  value \<open>0.352\<close> is clamped to \<open>0.30\<close> as well, so the result is not strictly
  smaller.
\<close>

theorem streak_strict_counterexample:
  "\<not> getBombProbability (onRoundLost (onRoundLost (onRoundLost OutcomeController_new))) 10
       < getBombProbability OutcomeController_new 10"
  apply (simp add: getBombProbability_def three_losses Let_def)
  apply (simp add: OutcomeController_new_def)
  apply (simp add: js_eval)
  done

text \<open>
  C5 as amended. For every run type and every step index, comparing a controller \<open>c\<close>
  with a controller \<open>c0\<close> of the same run type and no active streak. With
  \<open>consecutiveLosses \<ge> 3\<close> the value is at most the no-streak value and never below
  the double \<open>0.04\<close>; it is strictly smaller exactly when the clamp does not hide the
  adjustment: when it is itself below the double \<open>0.30\<close> and the no-streak value is
  above the double \<open>0.04\<close>. With \<open>consecutiveWins \<ge> 3\<close> (and fewer than three
  losses) the value is at least the no-streak value and never above the double
  \<open>0.30\<close>; it is strictly greater exactly when the no-streak value is below the double
  \<open>0.30\<close> and the value itself is above the double \<open>0.04\<close>. For a step index
  \<open>i \<ge> 0\<close> every value is above the double \<open>0.04\<close>.
\<close>

theorem streak_bounds:
  assumes "runType c = runType c0" "consecutiveLosses c0 < 3" "consecutiveWins c0 < 3"
  shows "(3 \<le> consecutiveLosses c \<longrightarrow>
            getBombProbability c i \<le> getBombProbability c0 i \<and>
            (getBombProbability c i < getBombProbability c0 i
               \<longleftrightarrow> getBombProbability c i < js_lit (30 / 100) \<and>
                   js_lit (4 / 100) < getBombProbability c0 i) \<and>
            js_lit (4 / 100) \<le> getBombProbability c i) \<and>
         (consecutiveLosses c < 3 \<and> 3 \<le> consecutiveWins c \<longrightarrow>
            getBombProbability c0 i \<le> getBombProbability c i \<and>
            (getBombProbability c0 i < getBombProbability c i
               \<longleftrightarrow> getBombProbability c0 i < js_lit (30 / 100) \<and>
                   js_lit (4 / 100) < getBombProbability c i) \<and>
            getBombProbability c i \<le> js_lit (30 / 100)) \<and>
         (0 \<le> i \<longrightarrow> js_lit (4 / 100) < getBombProbability c0 i \<and>
                    js_lit (4 / 100) < getBombProbability c i)"
proof -
  define raw where "raw = js_add (BASE_PROB (runType c0)) (js_mul (GROW_RATE (runType c0)) i)"
  define p where "p = js_lit (4 / 100)"
  define P where "P = js_lit (30 / 100)"
  have pP: "p < P" and p0: "0 < p" by (simp_all add: p_def P_def lit_vals)
  have g0: "getBombProbability c0 i = min P (max p raw)"
    using assms(2,3) by (simp add: getBombProbability_def Let_def raw_def p_def P_def)
  have gl: "getBombProbability c i = min P (max p (js_mul raw (js_lit (80 / 100))))"
    if "3 \<le> consecutiveLosses c"
    using that assms(1) by (simp add: getBombProbability_def Let_def raw_def p_def P_def)
  have gw: "getBombProbability c i = min P (max p (js_mul raw (js_lit (110 / 100))))"
    if "consecutiveLosses c < 3" "3 \<le> consecutiveWins c"
    using that assms(1) by (simp add: getBombProbability_def Let_def raw_def p_def P_def)
  have bounds: "p \<le> getBombProbability c i" "getBombProbability c i \<le> P"
    using getBombProbability_range [of c i] by (simp_all add: p_def P_def)
  have losses: "getBombProbability c i \<le> getBombProbability c0 i \<and>
      (getBombProbability c i < getBombProbability c0 i
         \<longleftrightarrow> getBombProbability c i < P \<and> p < getBombProbability c0 i)"
    if l: "3 \<le> consecutiveLosses c"
  proof (cases "0 < raw")
    case True
    show ?thesis unfolding g0 gl [OF l] using pP mercy_less [OF True] by (rule clamp_lower)
  next
    case False
    then have r: "raw \<le> 0" by simp
    show ?thesis unfolding g0 gl [OF l]
      by (simp only: clamp_floor [OF p0 pP r] clamp_floor [OF p0 pP mercy_nonpos [OF r]]) simp
  qed
  have wins: "getBombProbability c0 i \<le> getBombProbability c i \<and>
      (getBombProbability c0 i < getBombProbability c i
         \<longleftrightarrow> getBombProbability c0 i < P \<and> p < getBombProbability c i)"
    if w: "consecutiveLosses c < 3" "3 \<le> consecutiveWins c"
  proof (cases "0 < raw")
    case True
    show ?thesis unfolding g0 gw [OF w] using pP correction_greater [OF True] by (rule clamp_raise)
  next
    case False
    then have r: "raw \<le> 0" by simp
    show ?thesis unfolding g0 gw [OF w]
      by (simp only: clamp_floor [OF p0 pP r] clamp_floor [OF p0 pP correction_nonpos [OF r]]) simp
  qed
  have above: "p < getBombProbability c0 i \<and> p < getBombProbability c i" if i: "0 \<le> i"
  proof -
    have r7: "7 / 100 \<le> raw" unfolding raw_def using i by (rule raw_prob_ge)
    have lo: "p < raw" using r7 by (simp add: p_def lit_vals)
    have pos: "0 < raw" using r7 by simp
    have a0: "p < getBombProbability c0 i" unfolding g0 using lo pP by simp
    have "p < getBombProbability c i"
    proof (cases "3 \<le> consecutiveLosses c")
      case True
      have "p < js_mul raw (js_lit (80 / 100))" unfolding p_def using r7 by (rule mercy_above)
      then show ?thesis unfolding gl [OF True] using pP by simp
    next
      case False
      then have nl: "consecutiveLosses c < 3" by simp
      show ?thesis
      proof (cases "3 \<le> consecutiveWins c")
        case True
        have "p < js_mul raw (js_lit (110 / 100))" using lo correction_greater [OF pos] by linarith
        then show ?thesis unfolding gw [OF nl True] using pP by simp
      next
        case False
        then have "getBombProbability c i = min P (max p raw)"
          using nl assms(1) by (simp add: getBombProbability_def Let_def raw_def p_def P_def)
        then show ?thesis using lo pP by simp
      qed
    qed
    then show ?thesis using a0 by simp
  qed
  show ?thesis using losses wins above bounds unfolding p_def P_def by blast
qed

theorem streak_bounds_witness:
  "runType (onRoundLost (onRoundLost (onRoundLost OutcomeController_new))) = runType OutcomeController_new \<and>
   runType (onRoundWon (onRoundWon (onRoundWon OutcomeController_new))) = runType OutcomeController_new \<and>
   consecutiveLosses OutcomeController_new < 3 \<and> consecutiveWins OutcomeController_new < 3 \<and>
   3 \<le> consecutiveLosses (onRoundLost (onRoundLost (onRoundLost OutcomeController_new))) \<and>
   3 \<le> consecutiveWins (onRoundWon (onRoundWon (onRoundWon OutcomeController_new))) \<and>
   getBombProbability (onRoundLost (onRoundLost (onRoundLost OutcomeController_new))) 0
     < getBombProbability OutcomeController_new 0 \<and>
   getBombProbability OutcomeController_new 0
     < getBombProbability (onRoundWon (onRoundWon (onRoundWon OutcomeController_new))) 0"
proof -
  let ?l = "onRoundLost (onRoundLost (onRoundLost OutcomeController_new))"
  let ?w = "onRoundWon (onRoundWon (onRoundWon OutcomeController_new))"
  have h: "consecutiveLosses OutcomeController_new < 3" "consecutiveWins OutcomeController_new < 3"
    by (simp_all add: fresh_controller)
  have rl: "runType ?l = runType OutcomeController_new" "3 \<le> consecutiveLosses ?l"
    by (simp_all add: three_losses fresh_controller)
  have rw: "runType ?w = runType OutcomeController_new"
    "consecutiveLosses ?w < 3 \<and> 3 \<le> consecutiveWins ?w"
    by (simp_all add: three_wins fresh_controller)
  have "getBombProbability ?l 0 = min (js_lit (30 / 100)) (max (js_lit (4 / 100))
          (js_mul (js_add (js_lit (14 / 100)) (js_mul (js_lit (3 / 100)) 0)) (js_lit (80 / 100))))"
    by (simp add: getBombProbability_def three_losses Let_def)
  also have "\<dots> < js_lit (30 / 100)" by (simp add: js_eval)
  finally have bl: "getBombProbability ?l 0 < js_lit (30 / 100)" .
  have b0: "getBombProbability OutcomeController_new 0 < js_lit (30 / 100)"
    by (simp add: getBombProbability_def OutcomeController_new_def js_eval)
  have z: "(0::real) \<le> 0" by simp
  have "getBombProbability ?l 0 < getBombProbability OutcomeController_new 0"
    using streak_bounds [OF rl(1) h, of 0] rl(2) bl z by blast
  moreover have "getBombProbability OutcomeController_new 0 < getBombProbability ?w 0"
    using streak_bounds [OF rw(1) h, of 0] rw(2) b0 z by blast
  ultimately show ?thesis using h rl rw by simp
qed

subsection \<open>The generator\<close>

lemma Rng_next_fst:
  "fst (Rng_next g) = real (unat (mulberry32 (word_of_int (state g) + 0x6d2b79f5))) / 4294967296"
  by (simp add: Rng_next_def mulberry32_def toInt32_def imul_def ushr_def Let_def)

lemma Rng_next_state:
  "toInt32 (state (snd (Rng_next g))) = word_of_int (state g) + 0x6d2b79f5"
  by (simp add: Rng_next_def toInt32_def Let_def)

lemma Rng_next_seed: "seed (snd (Rng_next g)) = seed g"
  by (simp add: Rng_next_def Let_def)

lemma Rng_next_bounds: "0 \<le> fst (Rng_next g) \<and> fst (Rng_next g) \<le> 1 - 1 / 2 ^ 32"
proof -
  define w where "w = mulberry32 (word_of_int (state g) + 0x6d2b79f5)"
  have "unat w < 2 ^ 32" using unsigned_less [of w, where ?'a = nat] by simp
  then have "unat w \<le> 4294967295" by simp
  then have "real (unat w) \<le> real 4294967295" by (rule of_nat_mono)
  then have u: "real (unat w) \<le> 4294967295" by simp
  have l: "0 \<le> real (unat w)" by (rule of_nat_0_le_iff)
  have "fst (Rng_next g) = real (unat w) / 4294967296" by (simp only: Rng_next_fst w_def)
  then show ?thesis using u l by (simp add: field_simps)
qed

lemma Rng_next_below: "fst (Rng_next g) \<le> 1 - 1 / 2 ^ 53"
proof -
  have "fst (Rng_next g) \<le> 1 - 1 / 2 ^ 32" using Rng_next_bounds [of g] by simp
  also have "\<dots> \<le> (1 - 1 / 2 ^ 53 :: real)" by simp
  finally show ?thesis .
qed

text \<open>The value returned by \<open>next()\<close> is a double: the final division is exact.\<close>

lemma Rng_next_is_double: "is_double (fst (Rng_next g))"
proof -
  define w where "w = mulberry32 (word_of_int (state g) + 0x6d2b79f5)"
  have "uint w < 2 ^ 32" using uint_bounded [of w] by simp
  moreover have "0 \<le> uint w" by simp
  ultimately have b: "\<bar>uint w\<bar> < 2 ^ 53" by simp
  have "fst (Rng_next g) = real (unat w) / 4294967296" by (simp only: Rng_next_fst w_def)
  also have "\<dots> = of_int (uint w) * 2 powi (- 32)" by (simp add: power_int_minus field_simps)
  finally have "fst (Rng_next g) = of_int (uint w) * 2 powi (- 32)" .
  then show ?thesis using is_double_dyadic [OF b, of "- 32"] by (simp only:)
qed

lemma draws_closed:
  "fst (draws n g) =
     map (\<lambda>i. real (unat (mulberry32 (word_of_int (state g) + word_of_nat (Suc i) * 0x6d2b79f5)))
                / 4294967296) [0..<n]"
proof (induction n arbitrary: g)
  case 0
  show ?case by simp
next
  case (Suc n)
  obtain r g' where n: "Rng_next g = (r, g')" by (cases "Rng_next g")
  have r: "r = real (unat (mulberry32 (word_of_int (state g) + 0x6d2b79f5))) / 4294967296"
    using Rng_next_fst [of g] n by simp
  have s: "(word_of_int (state g') :: 32 word) = word_of_int (state g) + 0x6d2b79f5"
    using Rng_next_state [of g] n by (simp add: toInt32_def)
  have "fst (draws (Suc n) g) = r # fst (draws n g')"
    by (simp add: n split: prod.splits)
  also have "\<dots> = map (\<lambda>i. real (unat (mulberry32 (word_of_int (state g) + word_of_nat (Suc i) * 0x6d2b79f5)))
                / 4294967296) (0 # map Suc [0..<n])"
    by (simp add: Suc.IH r s algebra_simps o_def)
  also have "0 # map Suc [0..<n] = [0..<Suc n]"
    by (simp add: map_Suc_upt upt_conv_Cons del: upt_Suc)
  finally show ?case .
qed

lemma seed1: "fst (Rng_next (Rng_new 1)) = 2693262067 / 4294967296"
  by (simp add: Rng_next_def Rng_new_def toInt32_def imul_def ushr_def Let_def)

lemmas rng_eval = Rng_next_def Rng_chance_def toInt32_def imul_def ushr_def

text \<open>
  C3 (determinism). The first \<open>n\<close> values drawn from a generator constructed with seed
  \<open>s\<close> are \<open>nth_draw s 0\<close>, ..., \<open>nth_draw s (n - 1)\<close>: each value is a function of the
  seed and of the index of the draw, and of nothing else. Hence any two generators
  whose state is the same seed, whatever else they hold, give the same first \<open>n\<close>
  values, for every \<open>n\<close>.
\<close>

theorem Rng_deterministic:
  "fst (draws n (Rng_new s)) = map (nth_draw s) [0..<n] \<and>
   (\<forall>g1 g2 :: Rng. state g1 = s \<and> state g2 = s \<longrightarrow> fst (draws n g1) = fst (draws n g2))"
  by (simp add: draws_closed nth_draw_def Rng_new_def)

theorem Rng_deterministic_witness:
  "state (Rng_new 1) = 1 \<and> state \<lparr>state = 1, seed = 7\<rparr> = 1 \<and>
   fst (draws 3 (Rng_new 1)) = fst (draws 3 \<lparr>state = 1, seed = 7\<rparr>) \<and>
   fst (draws 3 (Rng_new 1)) = [2693262067 / 4294967296, 11749833 / 4294967296, 2265367787 / 4294967296]"
proof -
  have s: "state (Rng_new 1) = 1 \<and> state \<lparr>state = 1, seed = 7\<rparr> = 1" by (simp add: Rng_new_def)
  have u: "[0..<3] = [0, 1, 2]" by code_simp
  have "map (nth_draw 1) [0..<3] = [2693262067 / 4294967296, 11749833 / 4294967296, 2265367787 / 4294967296]"
    unfolding u by (simp add: nth_draw_def mulberry32_def Let_def)
  then show ?thesis using Rng_deterministic [of 3 1] s by (metis (no_types))
qed

text \<open>
  C8 (unit interval). \<open>next()\<close> returns an unsigned 32-bit integer divided by
  \<open>2 ^ 32\<close>, a double in \<open>[0, 1)\<close>; so \<open>chance(p)\<close> is false for every \<open>p \<le> 0\<close> and
  true for every \<open>p \<ge> 1\<close>.
\<close>

theorem Rng_next_unit_interval:
  "(\<exists>w :: 32 word. fst (Rng_next g) = real (unat w) / 2 ^ 32) \<and>
   is_double (fst (Rng_next g)) \<and>
   0 \<le> fst (Rng_next g) \<and> fst (Rng_next g) < 1 \<and>
   (p \<le> 0 \<longrightarrow> \<not> fst (Rng_chance p g)) \<and>
   (1 \<le> p \<longrightarrow> fst (Rng_chance p g))"
proof -
  have b: "0 \<le> fst (Rng_next g)" "fst (Rng_next g) < 1" using Rng_next_bounds [of g] by simp_all
  have c: "fst (Rng_chance p g) \<longleftrightarrow> fst (Rng_next g) < p"
    by (simp add: Rng_chance_def split: prod.splits)
  have "\<exists>w :: 32 word. fst (Rng_next g) = real (unat w) / 2 ^ 32"
    by (rule exI [of _ "mulberry32 (word_of_int (state g) + 0x6d2b79f5)"]) (simp add: Rng_next_fst)
  then show ?thesis using b c Rng_next_is_double [of g] by auto
qed

theorem Rng_next_unit_interval_witness:
  "(0::real) \<le> 0 \<and> (1::real) \<le> 1 \<and>
   \<not> fst (Rng_chance 0 (Rng_new 1)) \<and> fst (Rng_chance 1 (Rng_new 1)) \<and>
   fst (Rng_next (Rng_new 1)) = 2693262067 / 4294967296"
  using Rng_next_unit_interval [of "Rng_new 1" 0] Rng_next_unit_interval [of "Rng_new 1" 1] seed1
  by simp

subsection \<open>Picking from an array\<close>

lemma scaled_index:
  assumes "0 \<le> r" "r \<le> 1 - 1 / 2 ^ 53" "0 < n"
  shows "0 \<le> \<lfloor>js_mul r (real n)\<rfloor> \<and> \<lfloor>js_mul r (real n)\<rfloor> < int n"
proof -
  let ?x = "r * real n"
  have x0: "0 \<le> ?x" using assms(1) by simp
  have "?x \<le> (1 - 1 / 2 ^ 53) * real n" using assms(2) by (intro mult_right_mono) simp_all
  then have xn: "?x \<le> real n - real n / 2 ^ 53" by (simp add: algebra_simps)
  have "fl ?x \<le> ?x + ?x / 2 ^ 53" using x0 by (rule fl_upper)
  also have "\<dots> \<le> (real n - real n / 2 ^ 53) + (real n - real n / 2 ^ 53) / 2 ^ 53"
    using xn by (intro add_mono divide_right_mono) simp_all
  also have "\<dots> < real n" using assms(3) by (simp add: field_simps)
  finally have "fl ?x < real n" .
  then have "\<lfloor>fl ?x\<rfloor> < int n" by (simp add: floor_less_iff)
  moreover have "0 \<le> \<lfloor>fl ?x\<rfloor>" using fl_nonneg [OF x0] by simp
  ultimately show ?thesis by (simp add: js_mul_def)
qed

lemma fl_zero: "fl 0 = 0"
  by (simp add: fl_def)

text \<open>
  C7 (pick). The claim's first half fails: on an empty array \<open>pick\<close> raises nothing.
  It draws once, computes \<open>Math.floor(r * 0) = 0\<close> and returns \<open>arr[0]\<close>, which is
  \<open>undefined\<close>.
\<close>

theorem Rng_pick_empty_counterexample:
  "fst (Rng_pick ([] :: nat list) (Rng_new 1)) = Inr None \<and>
   fst (Rng_pick ([] :: nat list) (Rng_new 1)) \<noteq> Inl InvalidArgument"
  by (simp add: Rng_pick_def js_index_def js_mul_def fl_zero split: prod.splits)

text \<open>
  C7 as amended: \<open>pick\<close> on an empty array returns \<open>undefined\<close> after one draw; on a
  non-empty array it returns the element at index \<open>Math.floor(next() * len)\<close>, and
  that index is valid, after one draw.
\<close>

theorem Rng_pick_result:
  "Rng_pick [] g = (Inr None, snd (Rng_next g)) \<and>
   (arr \<noteq> [] \<longrightarrow>
      (let k = \<lfloor>js_mul (fst (Rng_next g)) (real (length arr))\<rfloor>
       in 0 \<le> k \<and> k < int (length arr) \<and>
          Rng_pick arr g = (Inr (Some (arr ! nat k)), snd (Rng_next g))))"
proof -
  have e: "Rng_pick [] g = (Inr None, snd (Rng_next g))"
    by (simp add: Rng_pick_def js_index_def js_mul_def fl_zero split: prod.splits)
  have "0 \<le> \<lfloor>js_mul (fst (Rng_next g)) (real (length arr))\<rfloor> \<and>
        \<lfloor>js_mul (fst (Rng_next g)) (real (length arr))\<rfloor> < int (length arr)"
    if "arr \<noteq> []"
    using that Rng_next_bounds [of g] Rng_next_below [of g] by (intro scaled_index) simp_all
  then show ?thesis using e
    by (auto simp: Rng_pick_def js_index_def Let_def split: prod.splits)
qed

theorem Rng_pick_result_witness:
  "[10, 20, 30 :: nat] \<noteq> [] \<and>
   fst (Rng_pick [10, 20, 30 :: nat] (Rng_new 1)) = Inr (Some 20)"
proof -
  have k: "\<lfloor>js_mul (fst (Rng_next (Rng_new 1))) (real (length [10, 20, 30 :: nat]))\<rfloor> = 1"
    by (simp add: seed1 js_eval)
  have ne: "[10, 20, 30 :: nat] \<noteq> []" by simp
  have "Rng_pick [10, 20, 30 :: nat] (Rng_new 1) =
      (Inr (Some ([10, 20, 30 :: nat] ! nat 1)), snd (Rng_next (Rng_new 1)))"
    using Rng_pick_result [of "Rng_new 1" "[10, 20, 30 :: nat]"] ne unfolding Let_def k by blast
  then show ?thesis by simp
qed

subsection \<open>The discrete engine\<close>

lemma collapse_chance_val:
  "getEffectiveCollapseChance = 5044031582654955 / 36028797018963968"
  by (simp add: getEffectiveCollapseChance_def BASE_COLLAPSE_def TUNING_collapseMultiplier_def js_eval)

lemma weights_val:
  "js_mul BASE_FIRST_PLANE_hitA TUNING_hitWeightMultiplier = 8106479329266893 / 18014398509481984"
  "js_mul BASE_FIRST_PLANE_hitB TUNING_hitWeightMultiplier = 8106479329266893 / 18014398509481984"
  "js_mul BASE_FIRST_PLANE_miss TUNING_missWeightMultiplier = 3602879701896397 / 36028797018963968"
  by (simp_all add: BASE_FIRST_PLANE_hitA_def BASE_FIRST_PLANE_hitB_def BASE_FIRST_PLANE_miss_def
      TUNING_hitWeightMultiplier_def TUNING_missWeightMultiplier_def js_eval)

lemma weights_sum:
  "js_add (8106479329266893 / 18014398509481984) (8106479329266893 / 18014398509481984)
     = 8106479329266893 / 9007199254740992"
  "js_add (8106479329266893 / 9007199254740992) (3602879701896397 / 36028797018963968) = 1"
  by (simp_all add: js_eval)

lemma rollPlaneOutcome_eval:
  "rollPlaneOutcome g =
     (let (u, g') = Rng_next g; r = js_mul u 1
      in (if r < 8106479329266893 / 18014398509481984 then hitA
          else if r < 8106479329266893 / 9007199254740992 then hitB
          else miss, g'))"
  by (simp add: rollPlaneOutcome_def weights_val weights_sum Let_def cong: if_cong)

text \<open>
  One round from seed 2814, call by call: the collapse triggers and hits tower B, the
  first plane misses, the second plane is triggered and hits tower B. Five draws.
\<close>

lemma round_2814_collapse: "Rng_chance getEffectiveCollapseChance \<lparr>state = 2814, seed = 2814\<rparr> = (True, \<lparr>state = 1831568627, seed = 2814\<rparr>)"
  by (simp add: collapse_chance_val rng_eval Let_def)

lemma round_2814_tower: "randomTower \<lparr>state = 1831568627, seed = 2814\<rparr> = (B, \<lparr>state = - 631832856, seed = 2814\<rparr>)"
  by (simp add: randomTower_def rng_eval Let_def lit_vals)

lemma round_2814_first: "rollPlaneOutcome \<lparr>state = - 631832856, seed = 2814\<rparr> = (miss, \<lparr>state = 1199732957, seed = 2814\<rparr>)"
  apply (simp add: rollPlaneOutcome_eval)
  apply (simp add: rng_eval Let_def)
  apply (simp add: js_eval)
  done

lemma round_2814_double: "Rng_chance BASE_DOUBLE_PLANE_ON_MISS \<lparr>state = 1199732957, seed = 2814\<rparr> = (True, \<lparr>state = - 1263668526, seed = 2814\<rparr>)"
  by (simp add: BASE_DOUBLE_PLANE_ON_MISS_def lit_vals rng_eval Let_def)

lemma round_2814_second: "rollPlaneOutcome \<lparr>state = - 1263668526, seed = 2814\<rparr> = (hitB, \<lparr>state = 567897287, seed = 2814\<rparr>)"
  apply (simp add: rollPlaneOutcome_eval)
  apply (simp add: rng_eval Let_def)
  apply (simp add: js_eval)
  done

lemma round_2814: "snd (resolveRound A (Rng_new 2814)) = \<lparr>state = 567897287, seed = 2814\<rparr>"
  by (simp add: resolveRound_def Rng_new_def round_2814_collapse round_2814_tower
      round_2814_first round_2814_double round_2814_second Let_def)

lemma round_2814_result:
  "firstPlane (fst (resolveRound A (Rng_new 2814))) = miss"
  "secondPlaneTriggered (fst (resolveRound A (Rng_new 2814)))"
  "secondPlane (fst (resolveRound A (Rng_new 2814))) = Some hitB"
  "collapseTriggered (fst (resolveRound A (Rng_new 2814)))"
  "collapsedTower (fst (resolveRound A (Rng_new 2814))) = Some B"
  "selectedTowerWins (fst (resolveRound A (Rng_new 2814)))"
  by (simp_all add: resolveRound_def Rng_new_def round_2814_collapse round_2814_tower
      round_2814_first round_2814_double round_2814_second Let_def applyPlaneOutcome_def)

lemma advance_2814:
  "Rng_advance 0 (Rng_new 2814) = \<lparr>state = 2814, seed = 2814\<rparr>"
  "Rng_advance 1 (Rng_new 2814) = \<lparr>state = 1831568627, seed = 2814\<rparr>"
  "Rng_advance 2 (Rng_new 2814) = \<lparr>state = - 631832856, seed = 2814\<rparr>"
  "Rng_advance 3 (Rng_new 2814) = \<lparr>state = 1199732957, seed = 2814\<rparr>"
  by (simp_all add: Rng_advance_def Rng_new_def numeral_2_eq_2 numeral_3_eq_3 Rng_next_def toInt32_def Let_def)

lemma Rng_advance_0: "Rng_advance 0 g = g"
  by (simp add: Rng_advance_def)

lemma Rng_advance_Suc: "Rng_advance (Suc k) g = Rng_advance k (snd (Rng_next g))"
  by (simp only: Rng_advance_def funpow_Suc_right o_apply)

lemma Rng_advance_add: "Rng_advance k (Rng_advance j g) = Rng_advance (j + k) g"
  by (simp only: Rng_advance_def add.commute [of j k] funpow_add o_apply)

lemma Rng_chance_advanceD: "Rng_chance p g = (b, g') \<Longrightarrow> g' = Rng_advance 1 g"
  by (auto simp: Rng_chance_def Rng_advance_def split: prod.splits)

lemma rollPlaneOutcome_advanceD: "rollPlaneOutcome g = (b, g') \<Longrightarrow> g' = Rng_advance 1 g"
  by (auto simp: rollPlaneOutcome_def Rng_advance_def Let_def split: prod.splits)

lemma randomTower_advanceD: "randomTower g = (b, g') \<Longrightarrow> g' = Rng_advance 1 g"
  by (auto simp: randomTower_def Rng_chance_def Rng_advance_def split: prod.splits)

text \<open>
  The result of a round, given the outcomes of its draws: the collapse flag \<open>ct\<close> and
  tower \<open>tw\<close>, the first plane \<open>fp\<close>, the second-plane flag \<open>st\<close> and plane \<open>sp\<close>.
\<close>

lemma resolveRound_run:
  obtains ct tw fp st sp where
    "resolveRound sel g =
       (let d1 = applyPlaneOutcome (\<lambda>t. False) fp;
            d2 = (case sp of Some p \<Rightarrow> applyPlaneOutcome d1 p | None \<Rightarrow> d1);
            d3 = (case tw of Some t \<Rightarrow> d2(t := True) | None \<Rightarrow> d2)
        in (\<lparr>firstPlane = fp, secondPlaneTriggered = st, secondPlane = sp,
             collapseTriggered = ct, collapsedTower = tw, destroyed = d3,
             survives = (\<lambda>t. \<not> d3 t), selectedTowerWins = \<not> d3 sel\<rparr>,
            Rng_advance (1 + (if ct then 1 else 0) + 1 + (if fp = miss then 1 else 0)
                           + (if st then 1 else 0)) g))"
    "(tw \<noteq> None) = ct" "(sp \<noteq> None) = st"
proof -
  obtain ct g1 where a: "Rng_chance getEffectiveCollapseChance g = (ct, g1)"
    by (cases "Rng_chance getEffectiveCollapseChance g")
  obtain t g1' where b: "randomTower g1 = (t, g1')" by (cases "randomTower g1")
  define g2 where "g2 = (if ct then g1' else g1)"
  obtain fp g3 where c: "rollPlaneOutcome g2 = (fp, g3)" by (cases "rollPlaneOutcome g2")
  obtain sc g3' where d: "Rng_chance BASE_DOUBLE_PLANE_ON_MISS g3 = (sc, g3')"
    by (cases "Rng_chance BASE_DOUBLE_PLANE_ON_MISS g3")
  define st where "st = (fp = miss \<and> sc)"
  define g4 where "g4 = (if fp = miss then g3' else g3)"
  obtain p g4' where e: "rollPlaneOutcome g4 = (p, g4')" by (cases "rollPlaneOutcome g4")
  define g5 where "g5 = (if st then g4' else g4)"
  have g1: "g1 = Rng_advance 1 g" using a by (rule Rng_chance_advanceD)
  have g2: "g2 = Rng_advance (1 + (if ct then 1 else 0)) g"
    using randomTower_advanceD [OF b] by (simp add: g2_def g1 Rng_advance_add)
  have g3: "g3 = Rng_advance (1 + (if ct then 1 else 0) + 1) g"
    using rollPlaneOutcome_advanceD [OF c] by (simp add: g2 Rng_advance_add)
  have g4: "g4 = Rng_advance (1 + (if ct then 1 else 0) + 1 + (if fp = miss then 1 else 0)) g"
    using Rng_chance_advanceD [OF d] by (simp add: g4_def g3 Rng_advance_add)
  have g5: "g5 = Rng_advance (1 + (if ct then 1 else 0) + 1 + (if fp = miss then 1 else 0)
                           + (if st then 1 else 0)) g"
    using rollPlaneOutcome_advanceD [OF e] by (simp add: g5_def g4 Rng_advance_add)
  have "resolveRound sel g =
       (let d1 = applyPlaneOutcome (\<lambda>t. False) fp;
            d2 = (case (if st then Some p else None) of Some p \<Rightarrow> applyPlaneOutcome d1 p | None \<Rightarrow> d1);
            d3 = (case (if ct then Some t else None) of Some t \<Rightarrow> d2(t := True) | None \<Rightarrow> d2)
        in (\<lparr>firstPlane = fp, secondPlaneTriggered = st, secondPlane = (if st then Some p else None),
             collapseTriggered = ct, collapsedTower = (if ct then Some t else None), destroyed = d3,
             survives = (\<lambda>t. \<not> d3 t), selectedTowerWins = \<not> d3 sel\<rparr>, g5))"
  proof (cases ct)
    case True
    with c have c': "rollPlaneOutcome g1' = (fp, g3)" by (simp add: g2_def)
    show ?thesis
    proof (cases "fp = miss")
      case m: True
      with e have e': "rollPlaneOutcome g3' = (p, g4')" by (simp add: g4_def)
      show ?thesis using True m
        by (cases sc) (simp_all add: resolveRound_def a b c' d e' st_def g5_def g4_def)
    next
      case False
      then show ?thesis using True
        by (simp add: resolveRound_def a b c' st_def g5_def g4_def)
    qed
  next
    case False
    with c have c': "rollPlaneOutcome g1 = (fp, g3)" by (simp add: g2_def)
    show ?thesis
    proof (cases "fp = miss")
      case m: True
      with e have e': "rollPlaneOutcome g3' = (p, g4')" by (simp add: g4_def)
      show ?thesis using False m
        by (cases sc) (simp_all add: resolveRound_def a c' d e' st_def g5_def g4_def)
    next
      case nm: False
      then show ?thesis using False
        by (simp add: resolveRound_def a c' st_def g5_def g4_def)
    qed
  qed
  then show ?thesis
    by (intro that [of fp "if st then Some p else None" "if ct then Some t else None" st ct])
       (simp_all add: g5)
qed

text \<open>
  C6 (draws per round). The bound of three draws fails: from seed 2814 the round makes
  five draws, and the generator it leaves is not the one reached after 0, 1, 2 or 3
  draws.
\<close>

theorem resolveRound_three_draws_counterexample:
  "draws_used (fst (resolveRound A (Rng_new 2814))) = 5 \<and>
   snd (resolveRound A (Rng_new 2814)) = Rng_advance 5 (Rng_new 2814) \<and>
   \<not> (\<exists>k \<le> 3. snd (resolveRound A (Rng_new 2814)) = Rng_advance k (Rng_new 2814))"
proof -
  have d: "draws_used (fst (resolveRound A (Rng_new 2814))) = 5"
    by (simp add: draws_used_def round_2814_result)
  have "Rng_advance 5 (Rng_new 2814) = \<lparr>state = 567897287, seed = 2814\<rparr>"
    by (simp add: Rng_advance_def Rng_new_def eval_nat_numeral Rng_next_def toInt32_def Let_def)
  then have f: "snd (resolveRound A (Rng_new 2814)) = Rng_advance 5 (Rng_new 2814)"
    by (simp add: round_2814)
  have "\<not> (\<exists>k \<le> 3. snd (resolveRound A (Rng_new 2814)) = Rng_advance k (Rng_new 2814))"
  proof
    assume "\<exists>k \<le> 3. snd (resolveRound A (Rng_new 2814)) = Rng_advance k (Rng_new 2814)"
    then obtain k where k: "k \<le> 3" "Rng_advance k (Rng_new 2814) = \<lparr>state = 567897287, seed = 2814\<rparr>"
      by (auto simp: round_2814)
    from k(1) consider "k = 0" | "k = 1" | "k = 2" | "k = 3" by arith
    then show False
    proof cases
      case 1
      then show False using k(2) advance_2814(1) by simp
    next
      case 2
      then show False using k(2) advance_2814(2) by simp
    next
      case 3
      then show False using k(2) advance_2814(3) by simp
    next
      case 4
      then show False using k(2) advance_2814(4) by simp
    qed
  qed
  then show ?thesis using d f by simp
qed



text \<open>
  C6 as amended: \<open>resolveRound\<close> always returns, and it advances the generator by
  exactly \<open>draws_used\<close> draws, at least 2 and at most 5: the collapse chance, the
  collapsed tower if the collapse triggered, the first plane, the second-plane chance
  if the first plane missed, and the second plane if it was triggered.
\<close>

theorem resolveRound_draw_count:
  "snd (resolveRound sel g) = Rng_advance (draws_used (fst (resolveRound sel g))) g \<and>
   2 \<le> draws_used (fst (resolveRound sel g)) \<and>
   draws_used (fst (resolveRound sel g)) \<le> 5"
proof -
  obtain ct tw fp st sp where
    "resolveRound sel g =
       (let d1 = applyPlaneOutcome (\<lambda>t. False) fp;
            d2 = (case sp of Some p \<Rightarrow> applyPlaneOutcome d1 p | None \<Rightarrow> d1);
            d3 = (case tw of Some t \<Rightarrow> d2(t := True) | None \<Rightarrow> d2)
        in (\<lparr>firstPlane = fp, secondPlaneTriggered = st, secondPlane = sp,
             collapseTriggered = ct, collapsedTower = tw, destroyed = d3,
             survives = (\<lambda>t. \<not> d3 t), selectedTowerWins = \<not> d3 sel\<rparr>,
            Rng_advance (1 + (if ct then 1 else 0) + 1 + (if fp = miss then 1 else 0)
                           + (if st then 1 else 0)) g))"
    by (rule resolveRound_run)
  then show ?thesis by (simp add: Let_def draws_used_def)
qed

text \<open>
  C2 (derived fields). In the resolution returned by \<open>resolveRound\<close>, \<open>destroyed\<close> is
  the specification's function of the first plane, the second plane and the collapsed
  tower, \<open>selectedTowerWins\<close> is the negation of \<open>destroyed\<close> at the selected tower,
  and the second plane and the collapsed tower are present exactly when triggered.
  Nothing but the three outcomes enters either field.
\<close>

theorem resolveRound_derived:
  "(let res = fst (resolveRound sel g) in
     destroyed res = destroyed_spec (firstPlane res) (secondPlane res) (collapsedTower res) \<and>
     selectedTowerWins res = (\<not> destroyed res sel) \<and>
     (secondPlane res \<noteq> None) = secondPlaneTriggered res \<and>
     (collapsedTower res \<noteq> None) = collapseTriggered res)"
proof -
  obtain ct tw fp st sp where r:
    "resolveRound sel g =
       (let d1 = applyPlaneOutcome (\<lambda>t. False) fp;
            d2 = (case sp of Some p \<Rightarrow> applyPlaneOutcome d1 p | None \<Rightarrow> d1);
            d3 = (case tw of Some t \<Rightarrow> d2(t := True) | None \<Rightarrow> d2)
        in (\<lparr>firstPlane = fp, secondPlaneTriggered = st, secondPlane = sp,
             collapseTriggered = ct, collapsedTower = tw, destroyed = d3,
             survives = (\<lambda>t. \<not> d3 t), selectedTowerWins = \<not> d3 sel\<rparr>,
            Rng_advance (1 + (if ct then 1 else 0) + 1 + (if fp = miss then 1 else 0)
                           + (if st then 1 else 0)) g))"
    and o: "(tw \<noteq> None) = ct" "(sp \<noteq> None) = st"
    by (rule resolveRound_run)
  have "(case tw of Some t \<Rightarrow> (case sp of Some p \<Rightarrow> applyPlaneOutcome (applyPlaneOutcome (\<lambda>t. False) fp) p
                                      | None \<Rightarrow> applyPlaneOutcome (\<lambda>t. False) fp)(t := True)
                   | None \<Rightarrow> (case sp of Some p \<Rightarrow> applyPlaneOutcome (applyPlaneOutcome (\<lambda>t. False) fp) p
                                      | None \<Rightarrow> applyPlaneOutcome (\<lambda>t. False) fp))
        = destroyed_spec fp sp tw"
    by (cases tw; cases sp)
       (auto simp: applyPlaneOutcome_def destroyed_spec_def names_def fun_eq_iff Let_def)
  then show ?thesis using o by (simp add: r Let_def)
qed

subsection \<open>Cards\<close>

lemma double_below_one:
  assumes "is_double r" "0 \<le> r" "r < 1"
  shows "r \<le> 1 - 1 / 2 ^ 53"
proof (cases "r = 0")
  case True
  then show ?thesis by simp
next
  case False
  then have pos: "0 < r" using assms(2) by simp
  define e where "e = expo r"
  have b: "2 powi e \<le> r" "r < 2 powi (e + 1)" using expo_bounds [OF pos] by (simp_all add: e_def)
  have "(2::real) powi e < 2 powi 0" using b(1) assms(3) by simp
  then have e0: "e < 0" by (rule power_int_le_imp_less_exp [rotated]) simp_all
  show ?thesis
  proof (cases "e = - 1")
    case True
    define n where "n = rne (r / 2 powi (e - 52))"
    have r: "r = of_int n / 2 ^ 53"
      using assms(1) False pos
      by (simp add: is_double_def fl_def Let_def e_def [symmetric] n_def True power_int_minus field_simps)
    have "real_of_int n < 2 ^ 53" using assms(3) r by (simp add: field_simps)
    then have "real_of_int n < real_of_int (2 ^ 53)" by simp
    then have "n < 2 ^ 53" by (simp only: of_int_less_iff)
    then have "n \<le> 2 ^ 53 - 1" by simp
    then have "real_of_int n \<le> real_of_int (2 ^ 53 - 1)" by (simp only: of_int_le_iff)
    then have "real_of_int n \<le> 2 ^ 53 - 1" by simp
    then show ?thesis unfolding r by (simp add: field_simps)
  next
    case False
    then have "e + 1 \<le> - 1" using e0 by simp
    then have "(2::real) powi (e + 1) \<le> 2 powi (- 1)" by (intro power_int_increasing) simp_all
    then have "r \<le> 1 / 2" using b(2) by (simp add: power_int_minus)
    then show ?thesis by simp
  qed
qed

lemma SAFE_CARDS_length: "length SAFE_CARDS = 14"
  by (simp add: SAFE_CARDS_def)

lemma SAFE_CARDS_safe: "c \<in> set SAFE_CARDS \<Longrightarrow> \<not> isBomb c"
  by (auto simp: SAFE_CARDS_def)

lemma pickSafeCard_in_range:
  assumes "0 \<le> r" "r \<le> 1 - 1 / 2 ^ 53"
  shows "0 \<le> \<lfloor>js_mul r 14\<rfloor> \<and> \<lfloor>js_mul r 14\<rfloor> < 14 \<and>
         pickSafeCard r = Some (SAFE_CARDS ! nat \<lfloor>js_mul r 14\<rfloor>) \<and>
         SAFE_CARDS ! nat \<lfloor>js_mul r 14\<rfloor> \<in> set SAFE_CARDS \<and>
         \<not> isBomb (SAFE_CARDS ! nat \<lfloor>js_mul r 14\<rfloor>)"
proof -
  have k: "0 \<le> \<lfloor>js_mul r 14\<rfloor> \<and> \<lfloor>js_mul r 14\<rfloor> < 14"
    using scaled_index [OF assms, of 14] by simp
  then have "nat \<lfloor>js_mul r 14\<rfloor> < length SAFE_CARDS" unfolding SAFE_CARDS_length by linarith
  then have m: "SAFE_CARDS ! nat \<lfloor>js_mul r 14\<rfloor> \<in> set SAFE_CARDS" by (rule nth_mem)
  have "pickSafeCard r = Some (SAFE_CARDS ! nat \<lfloor>js_mul r 14\<rfloor>)"
    using k by (simp add: pickSafeCard_def js_index_def SAFE_CARDS_length)
  then show ?thesis using k m SAFE_CARDS_safe [OF m] by simp
qed

text \<open>
  C10 (safe cards). For every number (that is, every double) \<open>r\<close> with
  \<open>0 \<le> r < 1\<close>, the index
  \<open>Math.floor(r * 14)\<close> is in bounds and \<open>pickSafeCard r\<close> is the element of
  \<open>SAFE_CARDS\<close> at that index, whose \<open>isBomb\<close> is false. And \<open>nextCard\<close> always
  returns a card; it is \<open>BOMB_CARD\<close>, and a card with \<open>isBomb\<close> set, exactly when the
  controller's \<open>isBomb\<close> returned true on the shared generator, and a card of
  \<open>SAFE_CARDS\<close> otherwise.
\<close>

theorem pickSafeCard_safe:
  "(is_double r \<and> 0 \<le> r \<and> r < 1 \<longrightarrow>
      0 \<le> \<lfloor>js_mul r 14\<rfloor> \<and> \<lfloor>js_mul r 14\<rfloor> < 14 \<and>
      pickSafeCard r = Some (SAFE_CARDS ! nat \<lfloor>js_mul r 14\<rfloor>) \<and>
      SAFE_CARDS ! nat \<lfloor>js_mul r 14\<rfloor> \<in> set SAFE_CARDS \<and>
      \<not> isBomb (SAFE_CARDS ! nat \<lfloor>js_mul r 14\<rfloor>)) \<and>
   (\<exists>c. fst (nextCard e i) = Some c \<and>
        isBomb c = fst (isBomb_at (outcomeController e) i (rng e)) \<and>
        (c = BOMB_CARD) = fst (isBomb_at (outcomeController e) i (rng e)) \<and>
        (c \<in> set SAFE_CARDS) = (\<not> fst (isBomb_at (outcomeController e) i (rng e))))"
proof -
  have nb: "BOMB_CARD \<notin> set SAFE_CARDS" using SAFE_CARDS_safe [of BOMB_CARD] by (auto simp: BOMB_CARD_def)
  obtain b g1 where ib: "isBomb_at (outcomeController e) i (rng e) = (b, g1)"
    by (cases "isBomb_at (outcomeController e) i (rng e)")
  obtain u g2 where nx: "Rng_next g1 = (u, g2)" by (cases "Rng_next g1")
  have u: "0 \<le> u" "u \<le> 1 - 1 / 2 ^ 53"
    using Rng_next_bounds [of g1] Rng_next_below [of g1] nx by simp_all
  have second: "\<exists>c. fst (nextCard e i) = Some c \<and> isBomb c = b \<and> (c = BOMB_CARD) = b \<and>
        (c \<in> set SAFE_CARDS) = (\<not> b)"
  proof (cases b)
    case True
    then show ?thesis using nb by (simp add: nextCard_def ib BOMB_CARD_def)
  next
    case False
    have "fst (nextCard e i) = pickSafeCard u" using False by (simp add: nextCard_def ib nx)
    then show ?thesis using pickSafeCard_in_range [OF u] False nb by auto
  qed
  have first: "0 \<le> \<lfloor>js_mul r 14\<rfloor> \<and> \<lfloor>js_mul r 14\<rfloor> < 14 \<and>
      pickSafeCard r = Some (SAFE_CARDS ! nat \<lfloor>js_mul r 14\<rfloor>) \<and>
      SAFE_CARDS ! nat \<lfloor>js_mul r 14\<rfloor> \<in> set SAFE_CARDS \<and>
      \<not> isBomb (SAFE_CARDS ! nat \<lfloor>js_mul r 14\<rfloor>)"
    if "is_double r" "0 \<le> r" "r < 1"
    using pickSafeCard_in_range [OF that(2) double_below_one [OF that]] .
  show ?thesis using first second by (simp add: ib)
qed

theorem pickSafeCard_safe_witness:
  "is_double (1 / 2) \<and> (0::real) \<le> 1 / 2 \<and> (1 / 2 :: real) < 1 \<and>
   map_option kind (pickSafeCard (1 / 2)) = Some ramen \<and>
   map_option kind (fst (nextCard (ReelEngine_new (Rng_new 1)) 0)) = Some strawberry \<and>
   \<not> fst (isBomb_at OutcomeController_new 0 (Rng_new 1))"
proof -
  have d: "is_double (1 / 2) \<and> (0::real) \<le> 1 / 2 \<and> (1 / 2 :: real) < 1"
    by (simp add: is_double_def js_eval)
  have k: "\<lfloor>js_mul (1 / 2) 14\<rfloor> = 7" by (simp add: js_eval)
  have p: "pickSafeCard (1 / 2) = Some (SAFE_CARDS ! 7)"
    using pickSafeCard_safe [of "1 / 2"] d unfolding k by simp
  have b: "\<not> fst (isBomb_at OutcomeController_new 0 (Rng_new 1))"
    apply (simp add: isBomb_at_def getBombProbability_def fresh_controller)
    apply (simp add: Rng_chance_def case_prod_beta seed1)
    apply (simp add: js_eval)
    done
  have n1: "snd (Rng_next (Rng_new 1)) = \<lparr>state = 1831565814, seed = 1\<rparr>"
    by (simp add: Rng_next_def Rng_new_def toInt32_def Let_def)
  have n2: "fst (Rng_next \<lparr>state = 1831565814, seed = 1\<rparr>) = 11749833 / 4294967296"
    by (simp add: Rng_next_def toInt32_def imul_def ushr_def Let_def)
  have k2: "\<lfloor>js_mul (11749833 / 4294967296) 14\<rfloor> = 0" by (simp add: js_eval)
  have "fst (nextCard (ReelEngine_new (Rng_new 1)) 0) = pickSafeCard (11749833 / 4294967296)"
    using b
    by (simp add: nextCard_def ReelEngine_new_def isBomb_at_def Rng_chance_def case_prod_beta n1 n2)
  then have c: "fst (nextCard (ReelEngine_new (Rng_new 1)) 0) = Some (SAFE_CARDS ! 0)"
    by (simp add: pickSafeCard_def js_index_def k2 SAFE_CARDS_length)
  show ?thesis using d p c b by (simp add: SAFE_CARDS_def)
qed

subsection \<open>Streaks\<close>

lemma js_add_one_pos:
  assumes "0 \<le> x"
  shows "0 < js_add x 1"
proof -
  have x: "0 \<le> x + 1" using assms by simp
  have "0 < (x + 1) - (x + 1) / 2 ^ 53" using assms by (simp add: field_simps)
  also have "\<dots> \<le> fl (x + 1)" using x by (rule fl_lower)
  finally show ?thesis by (simp add: js_add_def)
qed

lemma call_not_verdict:
  assumes "\<not> verdict x"
  shows "consecutiveWins (fst (call x s)) = consecutiveWins (fst s) \<and>
         consecutiveLosses (fst (call x s)) = consecutiveLosses (fst s)"
  using assms
  by (cases x; cases s) (simp_all add: startRound_def Let_def split: prod.splits)

lemma call_verdict:
  assumes "verdict x" "0 \<le> consecutiveWins (fst s)" "0 \<le> consecutiveLosses (fst s)"
  shows "(0 < consecutiveWins (fst (call x s)) \<and> consecutiveLosses (fst (call x s)) = 0) \<or>
         (consecutiveWins (fst (call x s)) = 0 \<and> 0 < consecutiveLosses (fst (call x s)))"
  using assms
  by (cases x; cases s) (simp_all add: onRoundWon_def onRoundLost_def js_add_one_pos)

lemma run_streak:
  assumes "0 \<le> consecutiveWins (fst s)" "0 \<le> consecutiveLosses (fst s)"
  shows "let c' = fst (run xs s) in
           0 \<le> consecutiveWins c' \<and> 0 \<le> consecutiveLosses c' \<and>
           (if \<exists>x \<in> set xs. verdict x
            then (consecutiveWins c' = 0) \<noteq> (consecutiveLosses c' = 0)
            else consecutiveWins c' = consecutiveWins (fst s) \<and>
                 consecutiveLosses c' = consecutiveLosses (fst s))"
  using assms
proof (induction xs arbitrary: s rule: rev_induct)
  case Nil
  then show ?case by simp
next
  case (snoc x xs)
  have r: "run (xs @ [x]) s = call x (run xs s)"
    by (induction xs arbitrary: s) simp_all
  let ?m = "run xs s"
  have ih: "0 \<le> consecutiveWins (fst ?m)" "0 \<le> consecutiveLosses (fst ?m)"
    "(\<exists>x \<in> set xs. verdict x) \<Longrightarrow> (consecutiveWins (fst ?m) = 0) \<noteq> (consecutiveLosses (fst ?m) = 0)"
    "\<not> (\<exists>x \<in> set xs. verdict x) \<Longrightarrow> consecutiveWins (fst ?m) = consecutiveWins (fst s) \<and>
                 consecutiveLosses (fst ?m) = consecutiveLosses (fst s)"
    using snoc.IH [OF snoc.prems] by (simp_all add: Let_def split: if_splits)
  show ?case
  proof (cases "verdict x")
    case True
    then show ?thesis using call_verdict [OF True ih(1,2)] by (auto simp: r Let_def)
  next
    case False
    then show ?thesis using call_not_verdict [OF False, of ?m] ih by (auto simp: r Let_def)
  qed
qed

text \<open>
  C4 (streak exclusivity). Run any sequence of calls on a freshly constructed
  controller. If the sequence contains an \<open>onRoundWon\<close> or \<open>onRoundLost\<close>, exactly one
  of \<open>consecutiveWins\<close> and \<open>consecutiveLosses\<close> is nonzero afterwards; if it contains
  none, both are still zero.
\<close>

theorem streak_exclusive:
  "(let c' = fst (run xs (OutcomeController_new, g)) in
     if \<exists>x \<in> set xs. verdict x
     then (consecutiveWins c' \<noteq> 0) \<noteq> (consecutiveLosses c' \<noteq> 0)
     else consecutiveWins c' = 0 \<and> consecutiveLosses c' = 0)"
  using run_streak [of "(OutcomeController_new, g)" xs]
  by (auto simp: Let_def fresh_controller)

theorem streak_exclusive_witness:
  "(\<exists>x \<in> set [StartRound, IsBomb 0, OnRoundLost, StartRound, GetBombProbability 1, OnRoundWon, StartRound].
      verdict x) \<and>
   consecutiveWins (fst (run [StartRound, IsBomb 0, OnRoundLost, StartRound, GetBombProbability 1,
       OnRoundWon, StartRound] (OutcomeController_new, Rng_new 1))) \<noteq> 0 \<and>
   consecutiveLosses (fst (run [StartRound, IsBomb 0, OnRoundLost, StartRound, GetBombProbability 1,
       OnRoundWon, StartRound] (OutcomeController_new, Rng_new 1))) = 0"
proof -
  let ?xs = "[StartRound, IsBomb 0, OnRoundLost, StartRound, GetBombProbability 1, OnRoundWon, StartRound]"
  have v: "\<exists>x \<in> set ?xs. verdict x" by simp
  have l: "consecutiveLosses (fst (run ?xs (OutcomeController_new, Rng_new 1))) = 0"
    by (simp add: startRound_def onRoundWon_def onRoundLost_def Let_def split: prod.splits)
  show ?thesis using streak_exclusive [of ?xs "Rng_new 1"] v l unfolding Let_def by auto
qed

end
